theory Spec2Isabelle
  imports Main
begin

section \<open>Tokens\<close>

text \<open>
  The lexer of \<^verbatim>\<open>dbms/src/Parsers/Lexer.cpp\<close>. The buffer is a list of bytes; a position
  is an offset from the buffer's \<^verbatim>\<open>begin\<close>, so \<^verbatim>\<open>begin\<close> is offset 0 and \<^verbatim>\<open>end\<close>
  is \<open>length buf\<close>. The only mutable field of the lexer is \<^verbatim>\<open>pos\<close>; \<open>nextToken\<close>
  takes it and returns it updated next to the token.
\<close>

datatype TokenType =
    Whitespace | Comment | BareWord | Number | StringLiteral | QuotedIdentifier
  | OpeningRoundBracket | ClosingRoundBracket | OpeningSquareBracket | ClosingSquareBracket
  | Comma | Semicolon | Dot | Asterisk | Plus | Minus | Division | Modulo | Arrow
  | QuestionMark | Colon | Equals | NotEquals | Less | Greater | LessOrEquals
  | GreaterOrEquals | Concatenation
  | EndOfStream
  | Error | ErrorMultilineCommentIsNotClosed | ErrorSingleQuoteIsNotClosed
  | ErrorDoubleQuoteIsNotClosed | ErrorBackQuoteIsNotClosed | ErrorSingleExclamationMark
  | ErrorSinglePipeMark | ErrorWordWithoutWhitespace

text \<open>A token: its kind and the half-open range of offsets \<open>[begin_of, end_of)\<close>.\<close>

datatype Token = Token (type_of: TokenType) (begin_of: nat) (end_of: nat)

text \<open>
  Modelled from the spec: the constructor \<^verbatim>\<open>Token(type, begin, size)\<close> of
  \<^verbatim>\<open>Parsers/Lexer.h\<close> (absent), which \<^verbatim>\<open>Lexer.cpp\<close> calls with the sizes 0 and 1.
  The spec gives \<^verbatim>\<open>EndOfStream\<close> the range \<open>[end, end)\<close> and
  \<^verbatim>\<open>ErrorWordWithoutWhitespace\<close> the length 1, so the range is \<open>[begin, begin + size)\<close>.
\<close>

definition Token_sized :: "TokenType \<Rightarrow> nat \<Rightarrow> nat \<Rightarrow> Token" where
  "Token_sized ty b n = Token ty b (b + n)"

definition size_of :: "Token \<Rightarrow> nat" where
  "size_of t = end_of t - begin_of t"

text \<open>The only way a call does not return a token: the \<^verbatim>\<open>__builtin_unreachable()\<close>
  of \<^verbatim>\<open>quotedString\<close> is executed.\<close>

datatype fault = Unreachable

section \<open>Character classes\<close>

text \<open>
  Modelled from the spec: the predicates of \<^verbatim>\<open>Common/StringUtils.h\<close> (absent). The spec
  names them: ASCII letters, ASCII decimal digits, word characters (letter, digit,
  underscore) and the six ASCII whitespace bytes.
\<close>

definition in_range :: "char \<Rightarrow> char \<Rightarrow> char \<Rightarrow> bool" where
  "in_range lo hi c = ((of_char lo :: nat) \<le> of_char c \<and> (of_char c :: nat) \<le> of_char hi)"

definition isAlphaASCII :: "char \<Rightarrow> bool" where
  "isAlphaASCII c = (in_range CHR ''a'' CHR ''z'' c \<or> in_range CHR ''A'' CHR ''Z'' c)"

definition isNumericASCII :: "char \<Rightarrow> bool" where
  "isNumericASCII c = in_range CHR ''0'' CHR ''9'' c"

definition isAlphaNumericASCII :: "char \<Rightarrow> bool" where
  "isAlphaNumericASCII c = (isAlphaASCII c \<or> isNumericASCII c)"

definition isWordCharASCII :: "char \<Rightarrow> bool" where
  "isWordCharASCII c = (isAlphaNumericASCII c \<or> c = CHR ''_'')"

definition isWhitespaceASCII :: "char \<Rightarrow> bool" where
  "isWhitespaceASCII c =
     (c = CHR '' '' \<or> c = CHR 0x09 \<or> c = CHR 0x0A \<or> c = CHR 0x0D \<or> c = CHR 0x0C \<or> c = CHR 0x0B)"

section \<open>Scanning loops\<close>

text \<open>
  Modelled from the spec: \<^verbatim>\<open>find_first_symbols<symbols...>(pos, end)\<close> of
  \<^verbatim>\<open>common/find_first_symbols.h\<close> (absent). The spec: scan forward for the next
  occurrence of one of the symbols; the result is its position, or the buffer end when
  the end is reached first.
\<close>

function find_first_symbols :: "char list \<Rightarrow> string \<Rightarrow> nat \<Rightarrow> nat" where
  "find_first_symbols symbols buf pos =
     (if pos < length buf
      then (if buf ! pos \<in> set symbols then pos else find_first_symbols symbols buf (pos + 1))
      else length buf)"
  by pat_completeness auto
termination
  by (relation "measure (\<lambda>(symbols, buf, pos). length buf - pos)") auto

text \<open>The loop \<^verbatim>\<open>while (pos < end && P) ++pos;\<close>, where \<^verbatim>\<open>P\<close> tests the byte at
  \<^verbatim>\<open>pos\<close> with \<^verbatim>\<open>isWhitespaceASCII\<close>, \<^verbatim>\<open>isWordCharASCII\<close> or \<^verbatim>\<open>isNumericASCII\<close>.\<close>

function skip_while :: "(char \<Rightarrow> bool) \<Rightarrow> string \<Rightarrow> nat \<Rightarrow> nat" where
  "skip_while P buf pos =
     (if pos < length buf \<and> P (buf ! pos) then skip_while P buf (pos + 1) else pos)"
  by pat_completeness auto
termination
  by (relation "measure (\<lambda>(P, buf, pos). length buf - pos)") auto

declare find_first_symbols.simps [simp del]
declare skip_while.simps [simp del]

lemma find_first_symbols_ge:
  "find_first_symbols symbols buf pos < length buf \<Longrightarrow> pos \<le> find_first_symbols symbols buf pos"
proof (induction symbols buf pos rule: find_first_symbols.induct)
  case (1 symbols buf pos)
  show ?case
  proof (cases "pos < length buf \<and> buf ! pos \<notin> set symbols")
    case True
    then have eq: "find_first_symbols symbols buf pos = find_first_symbols symbols buf (pos + 1)"
      by (subst find_first_symbols.simps) simp
    with "1.prems" have "find_first_symbols symbols buf (pos + 1) < length buf" by simp
    with "1.IH" True have "pos + 1 \<le> find_first_symbols symbols buf (pos + 1)" by simp
    with eq show ?thesis by simp
  next
    case False
    with "1.prems" show ?thesis
      by (subst (asm) find_first_symbols.simps, subst find_first_symbols.simps)
         (auto split: if_splits)
  qed
qed

section \<open>Quoted strings and identifiers\<close>

text \<open>The body of \<^verbatim>\<open>while (true)\<close> in \<^verbatim>\<open>quotedString\<close>; the template parameters
  \<^verbatim>\<open>quote\<close>, \<^verbatim>\<open>success_token\<close>, \<^verbatim>\<open>error_token\<close> are the first three arguments.\<close>

function quotedString_loop ::
  "char \<Rightarrow> TokenType \<Rightarrow> TokenType \<Rightarrow> string \<Rightarrow> nat \<Rightarrow> nat \<Rightarrow> fault + Token \<times> nat" where
  "quotedString_loop quote success_token error_token buf token_begin pos =
     (let p = find_first_symbols [quote, CHR 0x5C] buf pos in
      if p \<ge> length buf then Inr (Token error_token token_begin (length buf), p)
      else if buf ! p = quote then
        (if p + 1 < length buf \<and> buf ! (p + 1) = quote
         then quotedString_loop quote success_token error_token buf token_begin (p + 2)
         else Inr (Token success_token token_begin (p + 1), p + 1))
      else if buf ! p = CHR 0x5C then
        (if p + 1 \<ge> length buf then Inr (Token error_token token_begin (length buf), p + 1)
         else quotedString_loop quote success_token error_token buf token_begin (p + 2))
      else Inl Unreachable)"
  by pat_completeness auto
termination
proof (relation "measure (\<lambda>(quote, success_token, error_token, buf, token_begin, pos). length buf - pos)")
  show "wf (measure (\<lambda>(quote, success_token, error_token, buf, token_begin, pos). length buf - pos))"
    by simp
next
  fix quote :: char and success_token error_token :: TokenType and buf :: string
    and token_begin pos p :: nat
  assume p: "p = find_first_symbols [quote, CHR 0x5C] buf pos" and lt: "\<not> length buf \<le> p"
  from p lt have "pos \<le> p" using find_first_symbols_ge [of "[quote, CHR 0x5C]" buf pos] by simp
  with lt show "((quote, success_token, error_token, buf, token_begin, p + 2),
                 (quote, success_token, error_token, buf, token_begin, pos))
        \<in> measure (\<lambda>(quote, success_token, error_token, buf, token_begin, pos). length buf - pos)"
    by simp
next
  fix quote :: char and success_token error_token :: TokenType and buf :: string
    and token_begin pos p :: nat
  assume p: "p = find_first_symbols [quote, CHR 0x5C] buf pos" and lt: "\<not> length buf \<le> p"
  from p lt have "pos \<le> p" using find_first_symbols_ge [of "[quote, CHR 0x5C]" buf pos] by simp
  with lt show "((quote, success_token, error_token, buf, token_begin, p + 2),
                 (quote, success_token, error_token, buf, token_begin, pos))
        \<in> measure (\<lambda>(quote, success_token, error_token, buf, token_begin, pos). length buf - pos)"
    by simp
qed

declare quotedString_loop.simps [simp del]

definition quotedString ::
  "char \<Rightarrow> TokenType \<Rightarrow> TokenType \<Rightarrow> string \<Rightarrow> nat \<Rightarrow> nat \<Rightarrow> fault + Token \<times> nat" where
  "quotedString quote success_token error_token buf token_begin pos =
     quotedString_loop quote success_token error_token buf token_begin (pos + 1)"

section \<open>Comments\<close>

text \<open>
  The lambda \<^verbatim>\<open>commentUntilEndOfLine\<close>. Its scan is written
  \<^verbatim>\<open>find_first_symbols('\n', end)\<close>: the call passes the newline byte and the end
  pointer, and no start position. The function so called is declared in
  \<^verbatim>\<open>common/find_first_symbols.h\<close> (absent), and the spec describes no scan without a
  start position, so it is the parameter \<open>scan\<close>: from the symbol and the buffer that
  \<^verbatim>\<open>end\<close> bounds to an offset. The cursor is not among its arguments, and the lambda
  overwrites \<^verbatim>\<open>pos\<close> with the result.
\<close>

definition commentUntilEndOfLine ::
  "(char \<Rightarrow> string \<Rightarrow> nat) \<Rightarrow> string \<Rightarrow> nat \<Rightarrow> fault + Token \<times> nat" where
  "commentUntilEndOfLine scan buf token_begin =
     (let pos = scan CHR 0x0A buf
      in Inr (Token Comment token_begin pos, pos))"

text \<open>The loop \<^verbatim>\<open>while (pos <= end - 2)\<close> of the \<^verbatim>\<open>/*\<close> branch together with the
  \<^verbatim>\<open>return\<close> that follows it. The error token's range ends at \<^verbatim>\<open>end\<close>; \<^verbatim>\<open>pos\<close>
  is left where the loop stopped.\<close>

function multiline_comment_loop :: "string \<Rightarrow> nat \<Rightarrow> nat \<Rightarrow> fault + Token \<times> nat" where
  "multiline_comment_loop buf token_begin pos =
     (if int pos \<le> int (length buf) - 2
      then (if buf ! pos = CHR ''*'' \<and> buf ! (pos + 1) = CHR ''/''
            then Inr (Token Comment token_begin (pos + 2), pos + 2)
            else multiline_comment_loop buf token_begin (pos + 1))
      else Inr (Token ErrorMultilineCommentIsNotClosed token_begin (length buf), pos))"
  by pat_completeness auto
termination
  by (relation "measure (\<lambda>(buf, token_begin, pos). length buf - pos)") auto

declare multiline_comment_loop.simps [simp del]

section \<open>Numeric literals\<close>

text \<open>The stages of the \<^verbatim>\<open>'0'...'9'\<close> branch, one definition per commented block of
  the source; each takes the cursor and returns it advanced.\<close>

text \<open>\<^verbatim>\<open>/// 0x, 0b\<close>\<close>

definition radix_prefix :: "string \<Rightarrow> nat \<Rightarrow> nat" where
  "radix_prefix buf pos =
     (if int pos < int (length buf) - 2 \<and> buf ! pos = CHR ''0''
         \<and> (buf ! (pos + 1) = CHR ''x'' \<or> buf ! (pos + 1) = CHR ''b'')
      then pos + 2 else pos)"

text \<open>\<^verbatim>\<open>/// decimal point\<close>\<close>

definition decimal_point :: "string \<Rightarrow> nat \<Rightarrow> nat" where
  "decimal_point buf pos =
     (if pos < length buf \<and> buf ! pos = CHR ''.''
      then skip_while isNumericASCII buf (pos + 1) else pos)"

text \<open>\<^verbatim>\<open>/// sign of exponent\<close>\<close>

definition sign_of_exponent :: "string \<Rightarrow> nat \<Rightarrow> nat" where
  "sign_of_exponent buf pos =
     (if int pos < int (length buf) - 1 \<and> (buf ! pos = CHR ''-'' \<or> buf ! pos = CHR ''+'')
      then pos + 1 else pos)"

text \<open>\<^verbatim>\<open>/// exponentation\<close>, as the \<^verbatim>\<open>'0'...'9'\<close> branch guards it:
  \<^verbatim>\<open>pos + 1 < end\<close>.\<close>

definition exponentation :: "string \<Rightarrow> nat \<Rightarrow> nat" where
  "exponentation buf pos =
     (if pos + 1 < length buf \<and> (buf ! pos = CHR ''e'' \<or> buf ! pos = CHR ''p'')
      then skip_while isNumericASCII buf (sign_of_exponent buf (pos + 1))
      else pos)"

text \<open>\<^verbatim>\<open>/// exponentation\<close>, as the \<^verbatim>\<open>'.'\<close> branch guards it: \<^verbatim>\<open>pos < end - 1\<close>.\<close>

definition exponentation_dot :: "string \<Rightarrow> nat \<Rightarrow> nat" where
  "exponentation_dot buf pos =
     (if int pos < int (length buf) - 1 \<and> (buf ! pos = CHR ''e'' \<or> buf ! pos = CHR ''p'')
      then skip_while isNumericASCII buf (sign_of_exponent buf (pos + 1))
      else pos)"

section \<open>The lexer\<close>

text \<open>\<^verbatim>\<open>Lexer::nextToken\<close>: the token and the cursor after the call. The \<^verbatim>\<open>switch\<close> is
  the chain of tests on \<open>c\<close>, the byte at the cursor. The first argument is the scan
  that \<^verbatim>\<open>commentUntilEndOfLine\<close> calls.\<close>

definition nextToken ::
  "(char \<Rightarrow> string \<Rightarrow> nat) \<Rightarrow> string \<Rightarrow> nat \<Rightarrow> fault + Token \<times> nat" where
  "nextToken scan buf pos =
    (if pos \<ge> length buf then Inr (Token_sized EndOfStream (length buf) 0, pos)
     else
      let token_begin = pos; c = buf ! pos in
      if c = CHR '' '' \<or> c = CHR 0x09 \<or> c = CHR 0x0A \<or> c = CHR 0x0D \<or> c = CHR 0x0C \<or> c = CHR 0x0B
      then
        (let pos = skip_while isWhitespaceASCII buf (pos + 1)
         in Inr (Token Whitespace token_begin pos, pos))
      else if in_range CHR ''a'' CHR ''z'' c \<or> in_range CHR ''A'' CHR ''Z'' c \<or> c = CHR ''_''
      then
        (if pos > 0 \<and> isWordCharASCII (buf ! (pos - 1))
         then Inr (Token_sized ErrorWordWithoutWhitespace pos 1, pos)
         else
          (let pos = skip_while isWordCharASCII buf (pos + 1)
           in Inr (Token BareWord token_begin pos, pos)))
      else if in_range CHR ''0'' CHR ''9'' c
      then
        (let pos = radix_prefix buf pos;
             pos = skip_while isNumericASCII buf pos;
             pos = decimal_point buf pos;
             pos = exponentation buf pos
         in Inr (Token Number token_begin pos, pos))
      else if c = CHR 0x27
      then quotedString CHR 0x27 StringLiteral ErrorSingleQuoteIsNotClosed buf token_begin pos
      else if c = CHR 0x22
      then quotedString CHR 0x22 QuotedIdentifier ErrorDoubleQuoteIsNotClosed buf token_begin pos
      else if c = CHR 0x60
      then quotedString CHR 0x60 QuotedIdentifier ErrorBackQuoteIsNotClosed buf token_begin pos
      else if c = CHR ''('' then Inr (Token OpeningRoundBracket token_begin (pos + 1), pos + 1)
      else if c = CHR '')'' then Inr (Token ClosingRoundBracket token_begin (pos + 1), pos + 1)
      else if c = CHR ''['' then Inr (Token OpeningSquareBracket token_begin (pos + 1), pos + 1)
      else if c = CHR '']'' then Inr (Token ClosingSquareBracket token_begin (pos + 1), pos + 1)
      else if c = CHR '','' then Inr (Token Comma token_begin (pos + 1), pos + 1)
      else if c = CHR '';'' then Inr (Token Semicolon token_begin (pos + 1), pos + 1)
      else if c = CHR ''.''
      then
        (if pos > 0 \<and> (buf ! (pos - 1) = CHR '')'' \<or> buf ! (pos - 1) = CHR '']''
                        \<or> isAlphaNumericASCII (buf ! (pos - 1)))
         then Inr (Token Dot token_begin (pos + 1), pos + 1)
         else
          (let pos = skip_while isNumericASCII buf (pos + 1);
               pos = exponentation_dot buf pos
           in Inr (Token Number token_begin pos, pos)))
      else if c = CHR ''+'' then Inr (Token Plus token_begin (pos + 1), pos + 1)
      else if c = CHR ''-''
      then
        (let pos = pos + 1 in
         if pos < length buf \<and> buf ! pos = CHR ''>''
         then Inr (Token Arrow token_begin (pos + 1), pos + 1)
         else if pos < length buf \<and> buf ! pos = CHR ''-''
         then commentUntilEndOfLine scan buf token_begin
         else Inr (Token Minus token_begin pos, pos))
      else if c = CHR ''*'' then Inr (Token Asterisk token_begin (pos + 1), pos + 1)
      else if c = CHR ''/''
      then
        (let pos = pos + 1 in
         if pos < length buf \<and> (buf ! pos = CHR ''/'' \<or> buf ! pos = CHR ''*'')
         then (if buf ! pos = CHR ''/''
               then commentUntilEndOfLine scan buf token_begin
               else multiline_comment_loop buf token_begin (pos + 1))
         else Inr (Token Division token_begin pos, pos))
      else if c = CHR ''%'' then Inr (Token Modulo token_begin (pos + 1), pos + 1)
      else if c = CHR ''=''
      then
        (let pos = pos + 1;
             pos = (if pos < length buf \<and> buf ! pos = CHR ''='' then pos + 1 else pos)
         in Inr (Token Equals token_begin pos, pos))
      else if c = CHR ''!''
      then
        (let pos = pos + 1 in
         if pos < length buf \<and> buf ! pos = CHR ''=''
         then Inr (Token NotEquals token_begin (pos + 1), pos + 1)
         else Inr (Token ErrorSingleExclamationMark token_begin pos, pos))
      else if c = CHR ''<''
      then
        (let pos = pos + 1 in
         if pos < length buf \<and> buf ! pos = CHR ''=''
         then Inr (Token LessOrEquals token_begin (pos + 1), pos + 1)
         else if pos < length buf \<and> buf ! pos = CHR ''>''
         then Inr (Token NotEquals token_begin (pos + 1), pos + 1)
         else Inr (Token Less token_begin pos, pos))
      else if c = CHR ''>''
      then
        (let pos = pos + 1 in
         if pos < length buf \<and> buf ! pos = CHR ''=''
         then Inr (Token GreaterOrEquals token_begin (pos + 1), pos + 1)
         else Inr (Token Greater token_begin pos, pos))
      else if c = CHR ''?'' then Inr (Token QuestionMark token_begin (pos + 1), pos + 1)
      else if c = CHR '':'' then Inr (Token Colon token_begin (pos + 1), pos + 1)
      else if c = CHR ''|''
      then
        (let pos = pos + 1 in
         if pos < length buf \<and> buf ! pos = CHR ''|''
         then Inr (Token Concatenation token_begin (pos + 1), pos + 1)
         else Inr (Token ErrorSinglePipeMark token_begin pos, pos))
      else Inr (Token Error token_begin (pos + 1), pos + 1))"

text \<open>
  The caller's loop, which is not part of \<^verbatim>\<open>Lexer.cpp\<close>: call \<^verbatim>\<open>nextToken\<close> until it
  returns \<^verbatim>\<open>EndOfStream\<close> and collect the tokens, \<^verbatim>\<open>EndOfStream\<close> included. The
  argument \<open>fuel\<close> bounds the number of calls, since the loop is not known to end.
\<close>

fun tokenize :: "(char \<Rightarrow> string \<Rightarrow> nat) \<Rightarrow> nat \<Rightarrow> string \<Rightarrow> nat \<Rightarrow> Token list" where
  "tokenize scan 0 buf pos = []"
| "tokenize scan (Suc fuel) buf pos =
     (case nextToken scan buf pos of
        Inl f \<Rightarrow> []
      | Inr (t, pos') \<Rightarrow>
          if type_of t = EndOfStream then [t] else t # tokenize scan fuel buf pos')"

section \<open>Properties of the scanning loops\<close>

lemma skip_while_ge: "pos \<le> skip_while P buf pos"
proof (induction P buf pos rule: skip_while.induct)
  case (1 P buf pos)
  show ?case
  proof (cases "pos < length buf \<and> P (buf ! pos)")
    case True
    then have "skip_while P buf pos = skip_while P buf (pos + 1)"
      by (subst skip_while.simps) simp
    with "1.IH" True show ?thesis by simp
  next
    case False
    then show ?thesis by (subst skip_while.simps) auto
  qed
qed

lemma skip_while_le: "pos \<le> length buf \<Longrightarrow> skip_while P buf pos \<le> length buf"
proof (induction P buf pos rule: skip_while.induct)
  case (1 P buf pos)
  show ?case
  proof (cases "pos < length buf \<and> P (buf ! pos)")
    case True
    then have "skip_while P buf pos = skip_while P buf (pos + 1)"
      by (subst skip_while.simps) simp
    with "1.IH" True show ?thesis by simp
  next
    case False
    with "1.prems" show ?thesis by (subst skip_while.simps) auto
  qed
qed

lemma skip_while_all: "pos \<le> i \<Longrightarrow> i < skip_while P buf pos \<Longrightarrow> P (buf ! i)"
proof (induction P buf pos rule: skip_while.induct)
  case (1 P buf pos)
  show ?case
  proof (cases "pos < length buf \<and> P (buf ! pos)")
    case True
    then have eq: "skip_while P buf pos = skip_while P buf (pos + 1)"
      by (subst skip_while.simps) simp
    show ?thesis
    proof (cases "i = pos")
      case True
      with \<open>pos < length buf \<and> P (buf ! pos)\<close> show ?thesis by simp
    next
      case False
      with "1.prems" eq have "pos + 1 \<le> i" "i < skip_while P buf (pos + 1)" by simp_all
      with "1.IH" True show ?thesis by simp
    qed
  next
    case False
    then have "skip_while P buf pos = pos" by (subst skip_while.simps) auto
    with "1.prems" show ?thesis by simp
  qed
qed

lemma skip_while_stop:
  "skip_while P buf pos < length buf \<Longrightarrow> \<not> P (buf ! skip_while P buf pos)"
proof (induction P buf pos rule: skip_while.induct)
  case (1 P buf pos)
  show ?case
  proof (cases "pos < length buf \<and> P (buf ! pos)")
    case True
    then have eq: "skip_while P buf pos = skip_while P buf (pos + 1)"
      by (subst skip_while.simps) simp
    with "1.IH" "1.prems" True show ?thesis by simp
  next
    case False
    then have eq: "skip_while P buf pos = pos" by (subst skip_while.simps) auto
    with "1.prems" False show ?thesis by simp
  qed
qed

lemma find_first_symbols_le: "find_first_symbols symbols buf pos \<le> length buf"
proof (induction symbols buf pos rule: find_first_symbols.induct)
  case (1 symbols buf pos)
  show ?case
    using "1.IH" by (subst find_first_symbols.simps) auto
qed

lemma find_first_symbols_found:
  "find_first_symbols symbols buf pos < length buf
   \<Longrightarrow> buf ! find_first_symbols symbols buf pos \<in> set symbols"
proof (induction symbols buf pos rule: find_first_symbols.induct)
  case (1 symbols buf pos)
  show ?case
  proof (cases "pos < length buf \<and> buf ! pos \<notin> set symbols")
    case True
    then have eq: "find_first_symbols symbols buf pos = find_first_symbols symbols buf (pos + 1)"
      by (subst find_first_symbols.simps) simp
    with "1.IH" "1.prems" True show ?thesis by simp
  next
    case False
    with "1.prems" show ?thesis
      by (subst (asm) find_first_symbols.simps, subst find_first_symbols.simps)
         (auto split: if_splits)
  qed
qed

lemma find_first_symbols_skipped:
  "pos \<le> i \<Longrightarrow> i < find_first_symbols symbols buf pos \<Longrightarrow> buf ! i \<notin> set symbols"
proof (induction symbols buf pos rule: find_first_symbols.induct)
  case (1 symbols buf pos)
  have lt: "pos < length buf"
    using "1.prems" find_first_symbols_le [of symbols buf pos] by simp
  show ?case
  proof (cases "buf ! pos \<in> set symbols")
    case True
    with lt have "find_first_symbols symbols buf pos = pos"
      by (subst find_first_symbols.simps) simp
    with "1.prems" show ?thesis by simp
  next
    case False
    with lt have eq: "find_first_symbols symbols buf pos = find_first_symbols symbols buf (pos + 1)"
      by (subst find_first_symbols.simps) simp
    show ?thesis
    proof (cases "i = pos")
      case True
      with False show ?thesis by simp
    next
      case neq: False
      with "1.prems" eq have "pos + 1 \<le> i" "i < find_first_symbols symbols buf (pos + 1)"
        by simp_all
      with "1.IH" lt False show ?thesis by simp
    qed
  qed
qed

lemma find_first_symbols_from:
  "pos \<le> length buf \<Longrightarrow> pos \<le> find_first_symbols symbols buf pos"
  using find_first_symbols_ge [of symbols buf pos] find_first_symbols_le [of symbols buf pos]
  by (cases "find_first_symbols symbols buf pos < length buf") auto

section \<open>Every call returns a token\<close>

lemma quotedString_loop_unfold:
  "quotedString_loop quote success_token error_token buf token_begin pos =
     (let p = find_first_symbols [quote, CHR 0x5C] buf pos in
      if p \<ge> length buf then Inr (Token error_token token_begin (length buf), p)
      else if buf ! p = quote then
        (if p + 1 < length buf \<and> buf ! (p + 1) = quote
         then quotedString_loop quote success_token error_token buf token_begin (p + 2)
         else Inr (Token success_token token_begin (p + 1), p + 1))
      else if buf ! p = CHR 0x5C then
        (if p + 1 \<ge> length buf then Inr (Token error_token token_begin (length buf), p + 1)
         else quotedString_loop quote success_token error_token buf token_begin (p + 2))
      else Inl Unreachable)"
  by (subst quotedString_loop.simps) (rule refl)

lemma quotedString_loop_returns:
  "quotedString_loop quote success_token error_token buf token_begin pos \<noteq> Inl Unreachable"
proof (induction quote success_token error_token buf token_begin pos
       rule: quotedString_loop.induct)
  case (1 quote success_token error_token buf token_begin pos)
  define p where "p = find_first_symbols [quote, CHR 0x5C] buf pos"
  have unfold: "quotedString_loop quote success_token error_token buf token_begin pos =
     (if p \<ge> length buf then Inr (Token error_token token_begin (length buf), p)
      else if buf ! p = quote then
        (if p + 1 < length buf \<and> buf ! (p + 1) = quote
         then quotedString_loop quote success_token error_token buf token_begin (p + 2)
         else Inr (Token success_token token_begin (p + 1), p + 1))
      else if buf ! p = CHR 0x5C then
        (if p + 1 \<ge> length buf then Inr (Token error_token token_begin (length buf), p + 1)
         else quotedString_loop quote success_token error_token buf token_begin (p + 2))
      else Inl Unreachable)"
    unfolding p_def by (subst quotedString_loop.simps) (simp add: Let_def)
  have found: "p < length buf \<Longrightarrow> buf ! p = quote \<or> buf ! p = CHR 0x5C"
    using find_first_symbols_found [of "[quote, CHR 0x5C]" buf pos] unfolding p_def by simp
  show ?case
  proof (cases "p \<ge> length buf")
    case True
    then show ?thesis unfolding unfold by simp
  next
    case False
    then have lt: "p < length buf" by simp
    from found [OF lt] show ?thesis
    proof
      assume q: "buf ! p = quote"
      show ?thesis
        using "1.IH"(1) [OF p_def False q] False q unfolding unfold by simp
    next
      assume b: "buf ! p = CHR 0x5C"
      show ?thesis
      proof (cases "buf ! p = quote")
        case True
        show ?thesis
          using "1.IH"(1) [OF p_def False True] False True unfolding unfold by simp
      next
        case nq: False
        show ?thesis
          using "1.IH"(2) [OF p_def False nq b] False nq b unfolding unfold by simp
      qed
    qed
  qed
qed

lemma multiline_comment_loop_returns:
  "multiline_comment_loop buf token_begin pos \<noteq> Inl Unreachable"
proof (induction buf token_begin pos rule: multiline_comment_loop.induct)
  case (1 buf token_begin pos)
  then show ?case by (subst multiline_comment_loop.simps) simp
qed

lemma if_returns:
  "a \<noteq> Inl Unreachable \<Longrightarrow> b \<noteq> Inl Unreachable
   \<Longrightarrow> (if c then a else b) \<noteq> Inl Unreachable"
  by simp

lemma nextToken_returns: "nextToken scan buf pos \<noteq> Inl Unreachable"
  unfolding nextToken_def Let_def commentUntilEndOfLine_def quotedString_def
  by (intro if_returns quotedString_loop_returns multiline_comment_loop_returns) simp_all

section \<open>The stages of a numeric literal\<close>

lemma radix_prefix_ge: "pos \<le> radix_prefix buf pos"
  by (simp add: radix_prefix_def)

lemma radix_prefix_le: "pos \<le> length buf \<Longrightarrow> radix_prefix buf pos \<le> length buf"
  by (auto simp add: radix_prefix_def)

lemma decimal_point_ge: "pos \<le> decimal_point buf pos"
  using skip_while_ge [of "pos + 1" isNumericASCII buf] by (simp add: decimal_point_def)

lemma decimal_point_le: "pos \<le> length buf \<Longrightarrow> decimal_point buf pos \<le> length buf"
  using skip_while_le [of "pos + 1" buf isNumericASCII] by (auto simp add: decimal_point_def)

lemma sign_of_exponent_ge: "pos \<le> sign_of_exponent buf pos"
  by (simp add: sign_of_exponent_def)

lemma sign_of_exponent_le: "pos \<le> length buf \<Longrightarrow> sign_of_exponent buf pos \<le> length buf"
  by (auto simp add: sign_of_exponent_def)

lemma exponentation_ge: "pos \<le> exponentation buf pos"
  using skip_while_ge [of "sign_of_exponent buf (pos + 1)" isNumericASCII buf]
    sign_of_exponent_ge [of "pos + 1" buf]
  by (simp add: exponentation_def)

lemma exponentation_le: "pos \<le> length buf \<Longrightarrow> exponentation buf pos \<le> length buf"
  using skip_while_le [of "sign_of_exponent buf (pos + 1)" buf isNumericASCII]
    sign_of_exponent_le [of "pos + 1" buf]
  by (auto simp add: exponentation_def)

lemma exponentation_dot_eq: "exponentation_dot buf pos = exponentation buf pos"
  by (auto simp add: exponentation_dot_def exponentation_def)

lemma exponentation_shape:
  assumes "p + 1 < length buf" and "buf ! p = CHR ''e'' \<or> buf ! p = CHR ''p''"
    and "s = (if p + 2 < length buf \<and> (buf ! (p + 1) = CHR ''-'' \<or> buf ! (p + 1) = CHR ''+'')
              then p + 2 else p + 1)"
    and "e = exponentation buf p"
  shows "e = skip_while isNumericASCII buf s" and "s \<le> e" and "e \<le> length buf"
    and "\<forall>i. s \<le> i \<and> i < e \<longrightarrow> isNumericASCII (buf ! i)"
    and "e < length buf \<longrightarrow> \<not> isNumericASCII (buf ! e)"
proof -
  have s: "sign_of_exponent buf (p + 1) = s"
    unfolding sign_of_exponent_def assms(3) by auto
  show e: "e = skip_while isNumericASCII buf s"
    using assms(1,2) s unfolding assms(4) exponentation_def by simp
  show "s \<le> e" unfolding e by (rule skip_while_ge)
  have "s \<le> length buf" using assms(1) unfolding assms(3) by simp
  then show "e \<le> length buf" unfolding e by (rule skip_while_le)
  show "\<forall>i. s \<le> i \<and> i < e \<longrightarrow> isNumericASCII (buf ! i)"
    unfolding e using skip_while_all [of s _ isNumericASCII buf] by blast
  show "e < length buf \<longrightarrow> \<not> isNumericASCII (buf ! e)"
    unfolding e using skip_while_stop [of isNumericASCII buf s] by blast
qed

section \<open>The branches of the dispatch\<close>

lemma numeric_not_other:
  "isNumericASCII c \<Longrightarrow>
     \<not> (c = CHR '' '' \<or> c = CHR 0x09 \<or> c = CHR 0x0A \<or> c = CHR 0x0D \<or> c = CHR 0x0C \<or> c = CHR 0x0B)
     \<and> \<not> (in_range CHR ''a'' CHR ''z'' c \<or> in_range CHR ''A'' CHR ''Z'' c \<or> c = CHR ''_'')"
  by (auto simp add: isNumericASCII_def in_range_def)

lemma nextToken_digit:
  assumes "pos < length buf" and "isNumericASCII (buf ! pos)"
  shows "nextToken scan buf pos =
    Inr (Token Number pos
           (exponentation buf (decimal_point buf (skip_while isNumericASCII buf (radix_prefix buf pos)))),
         exponentation buf (decimal_point buf (skip_while isNumericASCII buf (radix_prefix buf pos))))"
proof -
  from assms(2) have r: "in_range CHR ''0'' CHR ''9'' (buf ! pos)"
    by (simp add: isNumericASCII_def)
  from numeric_not_other [OF assms(2)] r assms(1) show ?thesis
    unfolding nextToken_def Let_def by simp
qed

lemma nextToken_dot:
  assumes "pos < length buf" and "buf ! pos = CHR ''.''"
  shows "nextToken scan buf pos =
    (if pos > 0 \<and> (buf ! (pos - 1) = CHR '')'' \<or> buf ! (pos - 1) = CHR '']''
                    \<or> isAlphaNumericASCII (buf ! (pos - 1)))
     then Inr (Token Dot pos (pos + 1), pos + 1)
     else Inr (Token Number pos
                 (exponentation_dot buf (skip_while isNumericASCII buf (pos + 1))),
               exponentation_dot buf (skip_while isNumericASCII buf (pos + 1))))"
  using assms unfolding nextToken_def Let_def by (simp add: in_range_def)

lemma nextToken_minus_comment:
  assumes "pos + 1 < length buf" and "buf ! pos = CHR ''-''" and "buf ! (pos + 1) = CHR ''-''"
  shows "nextToken scan buf pos = commentUntilEndOfLine scan buf pos"
  using assms unfolding nextToken_def Let_def by (simp add: in_range_def)

lemma nextToken_slash_comment:
  assumes "pos + 1 < length buf" and "buf ! pos = CHR ''/''" and "buf ! (pos + 1) = CHR ''/''"
  shows "nextToken scan buf pos = commentUntilEndOfLine scan buf pos"
  using assms unfolding nextToken_def Let_def by (simp add: in_range_def)

lemma nextToken_line_comment:
  assumes "pos + 1 < length buf"
    and "buf ! pos = CHR ''-'' \<and> buf ! (pos + 1) = CHR ''-''
         \<or> buf ! pos = CHR ''/'' \<and> buf ! (pos + 1) = CHR ''/''"
  shows "nextToken scan buf pos =
    Inr (Token Comment pos (scan CHR 0x0A buf), scan CHR 0x0A buf)"
  using assms(2) nextToken_minus_comment [OF assms(1), of scan]
    nextToken_slash_comment [OF assms(1), of scan]
  unfolding commentUntilEndOfLine_def Let_def by blast

lemma tokenize_1a_stuck:
  "tokenize scan fuel ''1a'' 1 = replicate fuel (Token ErrorWordWithoutWhitespace 1 2)"
proof (induction fuel)
  case 0
  show ?case by simp
next
  case (Suc fuel)
  have "nextToken scan ''1a'' 1 = Inr (Token ErrorWordWithoutWhitespace 1 2, 1)" by code_simp
  with Suc show ?case by simp
qed

section \<open>The claims of the specification\<close>

text \<open>
  The statements below hold for every \<open>scan\<close>. The closed examples take for it the
  function that returns the buffer end; their buffers contain no line comment, so the
  function is never called.
\<close>

subsection \<open>C1: single-character error tokens advance the cursor by one byte\<close>

text \<open>
  C1. The claim: whenever \<^verbatim>\<open>nextToken\<close> returns \<^verbatim>\<open>ErrorSingleExclamationMark\<close>,
  \<^verbatim>\<open>ErrorSinglePipeMark\<close>, \<^verbatim>\<open>ErrorWordWithoutWhitespace\<close> or \<^verbatim>\<open>Error\<close>, the cursor
  after the call is one byte past the token's begin. The branch of
  \<^verbatim>\<open>ErrorWordWithoutWhitespace\<close> returns \<^verbatim>\<open>Token(..., pos, 1)\<close> without \<^verbatim>\<open>++pos\<close>, where
  the three other branches advance. On the buffer \<^verbatim>\<open>1a\<close> the first call returns the
  number \<open>[0, 1)\<close> and leaves the cursor at 1; the call at cursor 1 returns
  \<^verbatim>\<open>ErrorWordWithoutWhitespace\<close> with the range \<open>[1, 2)\<close> and the cursor is still 1.
\<close>

theorem C1_word_error_keeps_cursor:
  "nextToken scan ''1a'' 0 = Inr (Token Number 0 1, 1)
   \<and> nextToken scan ''1a'' 1 = Inr (Token ErrorWordWithoutWhitespace 1 2, 1)"
  by code_simp

subsection \<open>C2: the token ranges cover the buffer exactly once\<close>

text \<open>
  C2. The claim: the ranges of the tokens of a buffer are adjacent, do not overlap and
  cover \<open>[begin, end)\<close> once, up to an empty \<^verbatim>\<open>EndOfStream\<close>. After an unclosed
  \<^verbatim>\<open>/*\<close> the error token's range ends at \<^verbatim>\<open>end\<close>, but the cursor stays where the loop
  \<^verbatim>\<open>while (pos <= end - 2)\<close> stopped, one byte before \<^verbatim>\<open>end\<close>. On the buffer
  \<^verbatim>\<open>/* x\<close> the tokens are the error \<open>[0, 4)\<close>, then the bare word \<open>[3, 4)\<close>, then
  \<^verbatim>\<open>EndOfStream\<close>: the byte at offset 3 is covered twice.
\<close>

theorem C2_unclosed_comment_ranges_overlap:
  "tokenize scan 3 ''/* x'' 0 =
     [Token ErrorMultilineCommentIsNotClosed 0 4, Token BareWord 3 4, Token EndOfStream 4 4]"
  by code_simp

subsection \<open>C3: every call returns and the stream reaches EndOfStream\<close>

text \<open>
  C3. The claim: every call of \<^verbatim>\<open>nextToken\<close> returns a token, and repeated calls reach
  \<^verbatim>\<open>EndOfStream\<close> after finitely many tokens. The first half holds: no call reaches
  \<^verbatim>\<open>__builtin_unreachable()\<close>. The second half fails on the buffer \<^verbatim>\<open>1a\<close>: after the
  number, every further call returns the same \<^verbatim>\<open>ErrorWordWithoutWhitespace\<close> token, so
  however many calls are made, \<^verbatim>\<open>EndOfStream\<close> is not among the tokens.
\<close>

theorem C3_stream_never_reaches_EndOfStream:
  "nextToken scan buf pos \<noteq> Inl Unreachable
   \<and> tokenize scan (Suc fuel) ''1a'' 0 =
       Token Number 0 1 # replicate fuel (Token ErrorWordWithoutWhitespace 1 2)"
proof -
  have "nextToken scan ''1a'' 0 = Inr (Token Number 0 1, 1)" by code_simp
  then show ?thesis using tokenize_1a_stuck [of scan fuel] nextToken_returns [of scan buf pos] by simp
qed

subsection \<open>C4: an unclosed quote or comment is followed by EndOfStream\<close>

text \<open>
  C4. The claim: an unclosed-quote or unclosed-comment error token has the range
  \<open>[token_begin, end)\<close> and the next call returns \<^verbatim>\<open>EndOfStream\<close>. On the buffer
  \<^verbatim>\<open>/* x\<close> the token \<^verbatim>\<open>ErrorMultilineCommentIsNotClosed\<close> has the range \<open>[0, 4)\<close>, the
  cursor after the call is 3, and the next call returns the bare word \<open>[3, 4)\<close>.
\<close>

theorem C4_unclosed_comment_not_followed_by_EndOfStream:
  "nextToken scan ''/* x'' 0 = Inr (Token ErrorMultilineCommentIsNotClosed 0 4, 3)
   \<and> nextToken scan ''/* x'' 3 = Inr (Token BareWord 3 4, 4)"
  by code_simp

subsection \<open>C5: the radix prefix\<close>

text \<open>
  C5, as stated: whenever the byte at the cursor is \<^verbatim>\<open>0\<close> and the next byte exists and
  is \<^verbatim>\<open>x\<close> or \<^verbatim>\<open>b\<close>, both bytes are part of the number token. It fails on the
  buffer \<^verbatim>\<open>0x\<close>: the guard is \<^verbatim>\<open>pos < end - 2\<close>, so the prefix needs a byte after it,
  and the number token is \<open>[0, 1)\<close>.
\<close>

theorem C5_radix_prefix_at_end_counterexample:
  "nextToken (\<lambda>symbol buf. length buf) ''0x'' 0 = Inr (Token Number 0 1, 1)"
  by code_simp

text \<open>
  C5, amended: when the byte at the cursor is \<^verbatim>\<open>0\<close>, the next byte is \<^verbatim>\<open>x\<close> or
  \<^verbatim>\<open>b\<close> and at least one more byte follows these two, the call returns a \<^verbatim>\<open>Number\<close>
  token that begins at the cursor and contains both bytes, and the cursor is left at the
  token's end.
\<close>

theorem C5_radix_prefix_consumed:
  assumes "pos + 2 < length buf" and "buf ! pos = CHR ''0''"
    and "buf ! (pos + 1) = CHR ''x'' \<or> buf ! (pos + 1) = CHR ''b''"
  shows "\<exists>e. nextToken scan buf pos = Inr (Token Number pos e, e) \<and> pos + 2 \<le> e \<and> e \<le> length buf"
proof -
  have num: "isNumericASCII (buf ! pos)"
    using assms(2) by (simp add: isNumericASCII_def in_range_def)
  have rp: "radix_prefix buf pos = pos + 2"
    using assms by (auto simp add: radix_prefix_def)
  define e where
    "e = exponentation buf (decimal_point buf (skip_while isNumericASCII buf (pos + 2)))"
  have tok: "nextToken scan buf pos = Inr (Token Number pos e, e)"
    using nextToken_digit [of pos buf scan] assms(1) num rp unfolding e_def by simp
  have d: "pos + 2 \<le> skip_while isNumericASCII buf (pos + 2)"
    by (rule skip_while_ge)
  have d': "skip_while isNumericASCII buf (pos + 2) \<le> length buf"
    using assms(1) by (intro skip_while_le) simp
  have "pos + 2 \<le> e"
    unfolding e_def
    using d decimal_point_ge [of "skip_while isNumericASCII buf (pos + 2)" buf]
      exponentation_ge [of "decimal_point buf (skip_while isNumericASCII buf (pos + 2))" buf]
    by linarith
  moreover have "e \<le> length buf"
    unfolding e_def by (intro exponentation_le decimal_point_le d')
  ultimately show ?thesis using tok by blast
qed

text \<open>
  C5, amended, on the buffer \<^verbatim>\<open>0x1F\<close>.
\<close>

theorem C5_radix_prefix_consumed_witness:
  "\<exists>e. nextToken (\<lambda>symbol buf. length buf) ''0x1F'' 0 = Inr (Token Number 0 e, e) \<and> 0 + 2 \<le> e \<and> e \<le> length ''0x1F''"
proof -
  have h1: "0 + 2 < length ''0x1F''" by simp
  have h2: "''0x1F'' ! 0 = CHR ''0''" by simp
  have h3: "''0x1F'' ! (0 + 1) = CHR ''x'' \<or> ''0x1F'' ! (0 + 1) = CHR ''b''" by simp
  show ?thesis by (rule C5_radix_prefix_consumed [OF h1 h2 h3])
qed

subsection \<open>C6: the exponent of a numeric literal\<close>

text \<open>
  C6, as stated: after \<^verbatim>\<open>e\<close> or \<^verbatim>\<open>p\<close> a sign is consumed when present, and the
  buffer \<^verbatim>\<open>1e+\<close> is one number token of length 3. The sign's guard is
  \<^verbatim>\<open>pos < end - 1\<close>: a sign that is the last byte of the buffer is not consumed. On
  \<^verbatim>\<open>1e+\<close> the number token is \<open>[0, 2)\<close> and the next token is \<^verbatim>\<open>Plus\<close>.
\<close>

theorem C6_exponent_sign_at_end_counterexample:
  "nextToken (\<lambda>symbol buf. length buf) ''1e+'' 0 = Inr (Token Number 0 2, 2) \<and> nextToken (\<lambda>symbol buf. length buf) ''1e+'' 2 = Inr (Token Plus 2 3, 3)"
  by code_simp

text \<open>
  C6, amended. Let \<open>p\<close> be the cursor after the digits of a numeric literal (after the
  prefix, the integer digits and the fraction in the \<^verbatim>\<open>'0'...'9'\<close> branch; after the dot
  and the fraction digits in the number case of the \<^verbatim>\<open>'.'\<close> branch). If the byte at
  \<open>p\<close> is \<^verbatim>\<open>e\<close> or \<^verbatim>\<open>p\<close> and at least one byte follows it, that byte is consumed; a
  \<^verbatim>\<open>+\<close> or \<^verbatim>\<open>-\<close> right after it is consumed when at least one byte follows the sign;
  then the maximal run of decimal digits is consumed. With \<open>s\<close> the position after the
  exponent letter and the sign, the call returns one \<^verbatim>\<open>Number\<close> token from the cursor to
  the end \<open>e\<close> of that run of digits.
\<close>

theorem C6_exponent_consumed:
  assumes "p + 1 < length buf" and "buf ! p = CHR ''e'' \<or> buf ! p = CHR ''p''"
    and "s = (if p + 2 < length buf \<and> (buf ! (p + 1) = CHR ''-'' \<or> buf ! (p + 1) = CHR ''+'')
              then p + 2 else p + 1)"
    and "pos < length buf"
    and "isNumericASCII (buf ! pos)
           \<and> p = decimal_point buf (skip_while isNumericASCII buf (radix_prefix buf pos))
         \<or> buf ! pos = CHR ''.''
           \<and> \<not> (pos > 0 \<and> (buf ! (pos - 1) = CHR '')'' \<or> buf ! (pos - 1) = CHR '']''
                           \<or> isAlphaNumericASCII (buf ! (pos - 1))))
           \<and> p = skip_while isNumericASCII buf (pos + 1)"
  shows "\<exists>e. nextToken scan buf pos = Inr (Token Number pos e, e)
           \<and> e = skip_while isNumericASCII buf s \<and> p + 1 \<le> s \<and> s \<le> e \<and> e \<le> length buf
           \<and> (\<forall>i. s \<le> i \<and> i < e \<longrightarrow> isNumericASCII (buf ! i))
           \<and> (e < length buf \<longrightarrow> \<not> isNumericASCII (buf ! e))"
proof -
  define e where "e = exponentation buf p"
  note shape = exponentation_shape [OF assms(1,2,3) e_def]
  have ps: "p + 1 \<le> s" unfolding assms(3) by simp
  have tok: "nextToken scan buf pos = Inr (Token Number pos e, e)"
    using assms(5)
  proof
    assume a: "isNumericASCII (buf ! pos)
           \<and> p = decimal_point buf (skip_while isNumericASCII buf (radix_prefix buf pos))"
    then show ?thesis
      using nextToken_digit [OF assms(4), of scan] unfolding e_def by simp
  next
    assume a: "buf ! pos = CHR ''.''
           \<and> \<not> (pos > 0 \<and> (buf ! (pos - 1) = CHR '')'' \<or> buf ! (pos - 1) = CHR '']''
                           \<or> isAlphaNumericASCII (buf ! (pos - 1))))
           \<and> p = skip_while isNumericASCII buf (pos + 1)"
    then have dot: "buf ! pos = CHR ''.''" by simp
    from a show ?thesis
      unfolding nextToken_dot [OF assms(4) dot, of scan] e_def exponentation_dot_eq by simp
  qed
  from tok shape ps show ?thesis by blast
qed

text \<open>
  C6, amended, on the buffer \<^verbatim>\<open>1e+5\<close>: one number token of length 4.
\<close>

theorem C6_exponent_consumed_witness:
  "nextToken (\<lambda>symbol buf. length buf) ''1e+5'' 0 = Inr (Token Number 0 4, 4) \<and> isNumericASCII (''1e+5'' ! 3)"
proof -
  have h1: "1 + 1 < length ''1e+5''" by simp
  have h2: "''1e+5'' ! 1 = CHR ''e'' \<or> ''1e+5'' ! 1 = CHR ''p''" by simp
  have h3: "(3::nat) = (if 1 + 2 < length ''1e+5''
                 \<and> (''1e+5'' ! (1 + 1) = CHR ''-'' \<or> ''1e+5'' ! (1 + 1) = CHR ''+'')
              then 1 + 2 else 1 + 1)" by simp
  have h4: "0 < length ''1e+5''" by simp
  have h5a: "isNumericASCII (''1e+5'' ! 0)" by code_simp
  have h5b: "1 = decimal_point ''1e+5'' (skip_while isNumericASCII ''1e+5'' (radix_prefix ''1e+5'' 0))"
    by code_simp
  have h5: "isNumericASCII (''1e+5'' ! 0)
           \<and> 1 = decimal_point ''1e+5'' (skip_while isNumericASCII ''1e+5'' (radix_prefix ''1e+5'' 0))
         \<or> ''1e+5'' ! 0 = CHR ''.''
           \<and> \<not> (0 < (0::nat) \<and> (''1e+5'' ! (0 - 1) = CHR '')'' \<or> ''1e+5'' ! (0 - 1) = CHR '']''
                           \<or> isAlphaNumericASCII (''1e+5'' ! (0 - 1))))
           \<and> 1 = skip_while isNumericASCII ''1e+5'' (0 + 1)"
    using h5a h5b by blast
  have e4: "skip_while isNumericASCII ''1e+5'' 3 = 4" by code_simp
  from C6_exponent_consumed [where scan = "\<lambda>symbol buf. length buf", OF h1 h2 h3 h4 h5] obtain e where
    tok: "nextToken (\<lambda>symbol buf. length buf) ''1e+5'' 0 = Inr (Token Number 0 e, e)"
    and e: "e = skip_while isNumericASCII ''1e+5'' 3"
    and digits: "\<forall>i. 3 \<le> i \<and> i < e \<longrightarrow> isNumericASCII (''1e+5'' ! i)"
    by blast
  from e e4 have e': "e = 4" by simp
  then have "(3::nat) \<le> 3 \<and> 3 < e" by simp
  with digits have "isNumericASCII (''1e+5'' ! 3)" by blast
  with tok e' show ?thesis by simp
qed

subsection \<open>C7: a dot is a selector or starts a number\<close>

text \<open>
  C7. When the byte at the cursor is a dot: if the cursor is past the buffer's begin and
  the byte before it is \<^verbatim>\<open>)\<close>, \<^verbatim>\<open>]\<close> or an ASCII letter or digit, the token is
  \<^verbatim>\<open>Dot\<close> of length 1. Otherwise the token is a \<^verbatim>\<open>Number\<close> \<open>[pos, e)\<close> made of the dot,
  the fractional digits and the optional exponent: the digits after the dot are the
  maximal run \<open>[pos + 1, d)\<close>; when the byte at \<open>d\<close> is \<^verbatim>\<open>e\<close> or \<^verbatim>\<open>p\<close> and a byte
  follows it, the exponent is that byte, a sign that is followed by one more byte, and
  the maximal run of digits \<open>[s, e)\<close>; with no such byte at \<open>d\<close> the token ends at
  \<open>d\<close>. A lone dot is a \<^verbatim>\<open>Number\<close> of length 1.
\<close>

theorem C7_dot_or_number:
  assumes "pos < length buf" and "buf ! pos = CHR ''.''"
  shows "(pos > 0 \<and> (buf ! (pos - 1) = CHR '')'' \<or> buf ! (pos - 1) = CHR '']''
                     \<or> isAlphaNumericASCII (buf ! (pos - 1)))
          \<longrightarrow> nextToken scan buf pos = Inr (Token Dot pos (pos + 1), pos + 1))
       \<and> (\<not> (pos > 0 \<and> (buf ! (pos - 1) = CHR '')'' \<or> buf ! (pos - 1) = CHR '']''
                     \<or> isAlphaNumericASCII (buf ! (pos - 1))))
          \<longrightarrow> (\<exists>d e. nextToken scan buf pos = Inr (Token Number pos e, e)
                 \<and> d = skip_while isNumericASCII buf (pos + 1)
                 \<and> pos + 1 \<le> d \<and> d \<le> length buf
                 \<and> (\<forall>i. pos + 1 \<le> i \<and> i < d \<longrightarrow> isNumericASCII (buf ! i))
                 \<and> (d < length buf \<longrightarrow> \<not> isNumericASCII (buf ! d))
                 \<and> (d + 1 < length buf \<and> (buf ! d = CHR ''e'' \<or> buf ! d = CHR ''p'') \<longrightarrow>
                      (\<exists>s. s = (if d + 2 < length buf
                                    \<and> (buf ! (d + 1) = CHR ''-'' \<or> buf ! (d + 1) = CHR ''+'')
                                 then d + 2 else d + 1)
                         \<and> e = skip_while isNumericASCII buf s \<and> s \<le> e \<and> e \<le> length buf
                         \<and> (\<forall>i. s \<le> i \<and> i < e \<longrightarrow> isNumericASCII (buf ! i))
                         \<and> (e < length buf \<longrightarrow> \<not> isNumericASCII (buf ! e))))
                 \<and> (\<not> (d + 1 < length buf \<and> (buf ! d = CHR ''e'' \<or> buf ! d = CHR ''p''))
                      \<longrightarrow> e = d)))
       \<and> nextToken scan ''.'' 0 = Inr (Token Number 0 1, 1)"
proof -
  define d where "d = skip_while isNumericASCII buf (pos + 1)"
  define e where "e = exponentation buf d"
  have d1: "pos + 1 \<le> d" unfolding d_def by (rule skip_while_ge)
  have d2: "d \<le> length buf" unfolding d_def using assms(1) by (intro skip_while_le) simp
  have digits: "\<forall>i. pos + 1 \<le> i \<and> i < d \<longrightarrow> isNumericASCII (buf ! i)"
    unfolding d_def using skip_while_all [of "pos + 1" _ isNumericASCII buf] by blast
  have stop: "d < length buf \<longrightarrow> \<not> isNumericASCII (buf ! d)"
    unfolding d_def using skip_while_stop [of isNumericASCII buf "pos + 1"] by blast
  have expo: "d + 1 < length buf \<and> (buf ! d = CHR ''e'' \<or> buf ! d = CHR ''p'') \<longrightarrow>
      (\<exists>s. s = (if d + 2 < length buf \<and> (buf ! (d + 1) = CHR ''-'' \<or> buf ! (d + 1) = CHR ''+'')
                 then d + 2 else d + 1)
         \<and> e = skip_while isNumericASCII buf s \<and> s \<le> e \<and> e \<le> length buf
         \<and> (\<forall>i. s \<le> i \<and> i < e \<longrightarrow> isNumericASCII (buf ! i))
         \<and> (e < length buf \<longrightarrow> \<not> isNumericASCII (buf ! e)))"
  proof
    assume a: "d + 1 < length buf \<and> (buf ! d = CHR ''e'' \<or> buf ! d = CHR ''p'')"
    then have a1: "d + 1 < length buf" and a2: "buf ! d = CHR ''e'' \<or> buf ! d = CHR ''p''"
      by simp_all
    define s where "s = (if d + 2 < length buf
        \<and> (buf ! (d + 1) = CHR ''-'' \<or> buf ! (d + 1) = CHR ''+'') then d + 2 else d + 1)"
    note shape = exponentation_shape [OF a1 a2 s_def e_def]
    from shape show "\<exists>s. s = (if d + 2 < length buf
                   \<and> (buf ! (d + 1) = CHR ''-'' \<or> buf ! (d + 1) = CHR ''+'')
                 then d + 2 else d + 1)
         \<and> e = skip_while isNumericASCII buf s \<and> s \<le> e \<and> e \<le> length buf
         \<and> (\<forall>i. s \<le> i \<and> i < e \<longrightarrow> isNumericASCII (buf ! i))
         \<and> (e < length buf \<longrightarrow> \<not> isNumericASCII (buf ! e))"
      unfolding s_def by blast
  qed
  have noexpo: "\<not> (d + 1 < length buf \<and> (buf ! d = CHR ''e'' \<or> buf ! d = CHR ''p'')) \<longrightarrow> e = d"
    unfolding e_def exponentation_def by auto
  have lone: "nextToken scan ''.'' 0 = Inr (Token Number 0 1, 1)" by code_simp
  have dot: "pos > 0 \<and> (buf ! (pos - 1) = CHR '')'' \<or> buf ! (pos - 1) = CHR '']''
                     \<or> isAlphaNumericASCII (buf ! (pos - 1)))
          \<longrightarrow> nextToken scan buf pos = Inr (Token Dot pos (pos + 1), pos + 1)"
    using nextToken_dot [OF assms, of scan] by simp
  have num: "\<not> (pos > 0 \<and> (buf ! (pos - 1) = CHR '')'' \<or> buf ! (pos - 1) = CHR '']''
                     \<or> isAlphaNumericASCII (buf ! (pos - 1))))
          \<longrightarrow> nextToken scan buf pos = Inr (Token Number pos e, e)"
    using nextToken_dot [OF assms, of scan] unfolding e_def d_def exponentation_dot_eq by simp
  from dot num d_def d1 d2 digits stop expo noexpo lone show ?thesis by blast
qed

text \<open>
  C7 on the buffers \<^verbatim>\<open>.5e-3\<close> (one number with an exponent, \<open>[0, 5)\<close>), \<^verbatim>\<open>(.5\<close> (a
  number without exponent at offset 1) and \<^verbatim>\<open>a.b\<close> (a dot at offset 1).
\<close>

theorem C7_dot_or_number_witness:
  "nextToken (\<lambda>symbol buf. length buf) ''.5e-3'' 0 = Inr (Token Number 0 5, 5)
   \<and> nextToken (\<lambda>symbol buf. length buf) ''(.5'' 1 = Inr (Token Number 1 3, 3)
   \<and> nextToken (\<lambda>symbol buf. length buf) ''a.b'' 1 = Inr (Token Dot 1 2, 2)"
proof -
  have x1: "0 < length ''.5e-3''" by simp
  have x2: "''.5e-3'' ! 0 = CHR ''.''" by simp
  have x3: "\<not> (0 < (0::nat) \<and> (''.5e-3'' ! (0 - 1) = CHR '')'' \<or> ''.5e-3'' ! (0 - 1) = CHR '']''
                     \<or> isAlphaNumericASCII (''.5e-3'' ! (0 - 1))))" by simp
  have x4: "skip_while isNumericASCII ''.5e-3'' (0 + 1) = 2" by code_simp
  have x5: "2 + 1 < length ''.5e-3'' \<and> (''.5e-3'' ! 2 = CHR ''e'' \<or> ''.5e-3'' ! 2 = CHR ''p'')"
    by simp
  have x6: "(if 2 + 2 < length ''.5e-3''
                \<and> (''.5e-3'' ! (2 + 1) = CHR ''-'' \<or> ''.5e-3'' ! (2 + 1) = CHR ''+'')
             then 2 + 2 else 2 + 1) = (4::nat)" by simp
  have x7: "skip_while isNumericASCII ''.5e-3'' 4 = 5" by code_simp
  from C7_dot_or_number [where scan = "\<lambda>symbol buf. length buf", OF x1 x2] x3 obtain d e where
    xt: "nextToken (\<lambda>symbol buf. length buf) ''.5e-3'' 0 = Inr (Token Number 0 e, e)"
    and xd: "d = skip_while isNumericASCII ''.5e-3'' (0 + 1)"
    and xe: "d + 1 < length ''.5e-3'' \<and> (''.5e-3'' ! d = CHR ''e'' \<or> ''.5e-3'' ! d = CHR ''p'') \<longrightarrow>
       (\<exists>s. s = (if d + 2 < length ''.5e-3''
                     \<and> (''.5e-3'' ! (d + 1) = CHR ''-'' \<or> ''.5e-3'' ! (d + 1) = CHR ''+'')
                  then d + 2 else d + 1)
          \<and> e = skip_while isNumericASCII ''.5e-3'' s)"
    by blast
  from xd x4 have d2: "d = 2" by simp
  from xe x5 x6 have "e = skip_while isNumericASCII ''.5e-3'' 4" unfolding d2 by simp
  with x7 have "e = 5" by simp
  with xt have n1: "nextToken (\<lambda>symbol buf. length buf) ''.5e-3'' 0 = Inr (Token Number 0 5, 5)"
    by simp
  have a1: "1 < length ''(.5''" by simp
  have a2: "''(.5'' ! 1 = CHR ''.''" by simp
  have a3: "\<not> (0 < (1::nat) \<and> (''(.5'' ! (1 - 1) = CHR '')'' \<or> ''(.5'' ! (1 - 1) = CHR '']''
                     \<or> isAlphaNumericASCII (''(.5'' ! (1 - 1))))" by code_simp
  have a4: "skip_while isNumericASCII ''(.5'' (1 + 1) = 3" by code_simp
  have a5: "\<not> (3 + 1 < length ''(.5'' \<and> (''(.5'' ! 3 = CHR ''e'' \<or> ''(.5'' ! 3 = CHR ''p''))"
    by simp
  from C7_dot_or_number [where scan = "\<lambda>symbol buf. length buf", OF a1 a2] a3 obtain d' e' where
    at: "nextToken (\<lambda>symbol buf. length buf) ''(.5'' 1 = Inr (Token Number 1 e', e')"
    and ad: "d' = skip_while isNumericASCII ''(.5'' (1 + 1)"
    and ae: "\<not> (d' + 1 < length ''(.5'' \<and> (''(.5'' ! d' = CHR ''e'' \<or> ''(.5'' ! d' = CHR ''p''))
       \<longrightarrow> e' = d'"
    by blast
  from ad a4 have d3: "d' = 3" by simp
  from ae a5 have "e' = 3" unfolding d3 by blast
  with at have n2: "nextToken (\<lambda>symbol buf. length buf) ''(.5'' 1 = Inr (Token Number 1 3, 3)"
    by simp
  have b1: "1 < length ''a.b''" by simp
  have b2: "''a.b'' ! 1 = CHR ''.''" by simp
  have b3: "0 < (1::nat) \<and> (''a.b'' ! (1 - 1) = CHR '')'' \<or> ''a.b'' ! (1 - 1) = CHR '']''
                     \<or> isAlphaNumericASCII (''a.b'' ! (1 - 1)))" by code_simp
  from C7_dot_or_number [where scan = "\<lambda>symbol buf. length buf", OF b1 b2] b3
  have "nextToken (\<lambda>symbol buf. length buf) ''a.b'' 1 = Inr (Token Dot 1 (1 + 1), 1 + 1)"
    by blast
  with n1 n2 show ?thesis by simp
qed

subsection \<open>C8: the doubled-quote escape\<close>

text \<open>
  C8, as stated: the buffer \<^verbatim>\<open>'it''s'\<close> is one \<^verbatim>\<open>StringLiteral\<close> of length 6. The buffer
  has 7 bytes and the token covers all of them: its range is \<open>[0, 7)\<close>.
\<close>

theorem C8_doubled_quote_length_counterexample:
  "nextToken (\<lambda>symbol buf. length buf) [CHR 0x27, CHR ''i'', CHR ''t'', CHR 0x27, CHR 0x27, CHR ''s'', CHR 0x27] 0
     = Inr (Token StringLiteral 0 7, 7)
   \<and> size_of (Token StringLiteral 0 7) \<noteq> 6"
  by code_simp

text \<open>
  C8, amended. Inside a quoted span, let \<open>p\<close> be a quote byte at which the scan stops.
  If the next byte is the same quote byte, both are consumed and the lexeme continues from
  \<open>p + 2\<close>; otherwise the lexeme is complete: the success kind with the range
  \<open>[token_begin, p + 1)\<close>, the cursor at \<open>p + 1\<close>. The buffer \<^verbatim>\<open>'it''s'\<close> is one
  \<^verbatim>\<open>StringLiteral\<close> of length 7 followed by \<^verbatim>\<open>EndOfStream\<close>.
\<close>

theorem C8_doubled_quote_escape:
  assumes "p = find_first_symbols [quote, CHR 0x5C] buf pos" and "p < length buf"
    and "buf ! p = quote"
  shows "(p + 1 < length buf \<and> buf ! (p + 1) = quote \<longrightarrow>
            quotedString_loop quote success_token error_token buf token_begin pos
            = quotedString_loop quote success_token error_token buf token_begin (p + 2))
       \<and> (\<not> (p + 1 < length buf \<and> buf ! (p + 1) = quote) \<longrightarrow>
            quotedString_loop quote success_token error_token buf token_begin pos
            = Inr (Token success_token token_begin (p + 1), p + 1))
       \<and> tokenize scan 2 [CHR 0x27, CHR ''i'', CHR ''t'', CHR 0x27, CHR 0x27, CHR ''s'', CHR 0x27] 0
            = [Token StringLiteral 0 7, Token EndOfStream 7 7]
       \<and> size_of (Token StringLiteral 0 7) = 7"
proof -
  have ex: "tokenize scan 2 [CHR 0x27, CHR ''i'', CHR ''t'', CHR 0x27, CHR 0x27, CHR ''s'', CHR 0x27] 0
            = [Token StringLiteral 0 7, Token EndOfStream 7 7]
       \<and> size_of (Token StringLiteral 0 7) = 7" by code_simp
  have "quotedString_loop quote success_token error_token buf token_begin pos =
        (if p + 1 < length buf \<and> buf ! (p + 1) = quote
         then quotedString_loop quote success_token error_token buf token_begin (p + 2)
         else Inr (Token success_token token_begin (p + 1), p + 1))"
    using assms(2,3) unfolding assms(1)
    by (subst quotedString_loop_unfold) (simp add: Let_def)
  with ex show ?thesis by simp
qed

text \<open>
  C8, amended, on the buffer \<^verbatim>\<open>'it''s'\<close>: the quote at offset 3 is doubled, the quote at
  offset 6 closes the literal.
\<close>

theorem C8_doubled_quote_escape_witness:
  "quotedString_loop CHR 0x27 StringLiteral ErrorSingleQuoteIsNotClosed
       [CHR 0x27, CHR ''i'', CHR ''t'', CHR 0x27, CHR 0x27, CHR ''s'', CHR 0x27] 0 1
     = quotedString_loop CHR 0x27 StringLiteral ErrorSingleQuoteIsNotClosed
       [CHR 0x27, CHR ''i'', CHR ''t'', CHR 0x27, CHR 0x27, CHR ''s'', CHR 0x27] 0 (3 + 2)
   \<and> quotedString_loop CHR 0x27 StringLiteral ErrorSingleQuoteIsNotClosed
       [CHR 0x27, CHR ''i'', CHR ''t'', CHR 0x27, CHR 0x27, CHR ''s'', CHR 0x27] 0 5
     = Inr (Token StringLiteral 0 (6 + 1), 6 + 1)"
proof -
  let ?buf = "[CHR 0x27, CHR ''i'', CHR ''t'', CHR 0x27, CHR 0x27, CHR ''s'', CHR 0x27]"
  have a1: "3 = find_first_symbols [CHR 0x27, CHR 0x5C] ?buf 1" by code_simp
  have a2: "3 < length ?buf" by simp
  have a3: "?buf ! 3 = CHR 0x27" by simp
  have a4: "3 + 1 < length ?buf \<and> ?buf ! (3 + 1) = CHR 0x27" by simp
  have b1: "6 = find_first_symbols [CHR 0x27, CHR 0x5C] ?buf 5" by code_simp
  have b2: "6 < length ?buf" by simp
  have b3: "?buf ! 6 = CHR 0x27" by simp
  have b4: "\<not> (6 + 1 < length ?buf \<and> ?buf ! (6 + 1) = CHR 0x27)" by simp
  from C8_doubled_quote_escape [OF a1 a2 a3, where success_token = StringLiteral
      and error_token = ErrorSingleQuoteIsNotClosed and token_begin = 0] a4
    C8_doubled_quote_escape [OF b1 b2 b3, where success_token = StringLiteral
      and error_token = ErrorSingleQuoteIsNotClosed and token_begin = 0] b4
  show ?thesis by blast
qed

subsection \<open>C9: line comments\<close>

text \<open>
  C9. The claim: a line comment extends from its opening bytes to the next newline byte,
  not included, or to the buffer end. The scan of \<^verbatim>\<open>commentUntilEndOfLine\<close> is called
  with the newline byte and the end pointer only, where the scan of \<^verbatim>\<open>quotedString\<close>
  is called with the cursor and the end pointer. So the end of a comment cannot depend
  on where the comment is. The buffer \<^verbatim>\<open>--a\n--b\<close> has a comment at offset 0, which the
  claim ends at the newline, offset 3, and a comment at offset 4, which the claim ends at
  the buffer end, offset 7. Whatever the scan computes, the code gives both comments the
  same end, which is also the cursor after each of the two calls.
\<close>

theorem C9_line_comment_end_ignores_cursor:
  "nextToken scan (''--a'' @ [CHR 0x0A] @ ''--b'') 0 =
     Inr (Token Comment 0 (scan CHR 0x0A (''--a'' @ [CHR 0x0A] @ ''--b'')),
          scan CHR 0x0A (''--a'' @ [CHR 0x0A] @ ''--b''))
   \<and> nextToken scan (''--a'' @ [CHR 0x0A] @ ''--b'') 4 =
     Inr (Token Comment 4 (scan CHR 0x0A (''--a'' @ [CHR 0x0A] @ ''--b'')),
          scan CHR 0x0A (''--a'' @ [CHR 0x0A] @ ''--b''))"
proof -
  let ?buf = "''--a'' @ [CHR 0x0A] @ ''--b''"
  have a1: "0 + 1 < length ?buf" by simp
  have a2: "?buf ! 0 = CHR ''-'' \<and> ?buf ! (0 + 1) = CHR ''-''
         \<or> ?buf ! 0 = CHR ''/'' \<and> ?buf ! (0 + 1) = CHR ''/''" by simp
  have b1: "4 + 1 < length ?buf" by simp
  have b2: "?buf ! 4 = CHR ''-'' \<and> ?buf ! (4 + 1) = CHR ''-''
         \<or> ?buf ! 4 = CHR ''/'' \<and> ?buf ! (4 + 1) = CHR ''/''" by simp
  from nextToken_line_comment [OF a1 a2, of scan] nextToken_line_comment [OF b1 b2, of scan]
  show ?thesis by simp
qed

subsection \<open>C10: the unreachable branch of quotedString\<close>

text \<open>
  C10. In \<^verbatim>\<open>quotedString\<close>, when the scan for the quote byte or a backslash stops before
  the buffer end, the byte there is the quote byte or a backslash; so neither the loop nor
  \<^verbatim>\<open>quotedString\<close> ever executes the branch marked unreachable, for any buffer, quote
  byte and cursor.
\<close>

theorem C10_quotedString_never_unreachable:
  "(find_first_symbols [quote, CHR 0x5C] buf pos < length buf \<longrightarrow>
      buf ! find_first_symbols [quote, CHR 0x5C] buf pos = quote
      \<or> buf ! find_first_symbols [quote, CHR 0x5C] buf pos = CHR 0x5C)
   \<and> quotedString_loop quote success_token error_token buf token_begin pos \<noteq> Inl Unreachable
   \<and> quotedString quote success_token error_token buf token_begin pos \<noteq> Inl Unreachable"
  using find_first_symbols_found [of "[quote, CHR 0x5C]" buf pos]
    quotedString_loop_returns [of quote success_token error_token buf token_begin pos]
    quotedString_loop_returns [of quote success_token error_token buf token_begin "pos + 1"]
  unfolding quotedString_def by simp

text \<open>
  C10 on the buffer \<^verbatim>\<open>it\<close> with the quote byte \<^verbatim>\<open>t\<close>.
\<close>

theorem C10_quotedString_never_unreachable_witness:
  "find_first_symbols [CHR ''t'', CHR 0x5C] ''it'' 0 < length ''it''
   \<and> (''it'' ! find_first_symbols [CHR ''t'', CHR 0x5C] ''it'' 0 = CHR ''t''
      \<or> ''it'' ! find_first_symbols [CHR ''t'', CHR 0x5C] ''it'' 0 = CHR 0x5C)
   \<and> quotedString_loop CHR ''t'' StringLiteral ErrorSingleQuoteIsNotClosed ''it'' 0 0
        \<noteq> Inl Unreachable
   \<and> quotedString CHR ''t'' StringLiteral ErrorSingleQuoteIsNotClosed ''it'' 0 0
        \<noteq> Inl Unreachable"
proof -
  have h: "find_first_symbols [CHR ''t'', CHR 0x5C] ''it'' 0 < length ''it''" by code_simp
  from C10_quotedString_never_unreachable
         [of "CHR ''t''" "''it''" 0 StringLiteral ErrorSingleQuoteIsNotClosed 0] h
  show ?thesis by blast
qed

end
